theory Spec2Isabelle
  imports Main
begin

section \<open>Server configuration and connection session (src/index.ts)\<close>

text \<open>
  \<open>configSchema\<close> (lines 19-26). The connection timeout is a number of seconds; it is
  an integer here.
\<close>

record config =
  serverName :: string
  databaseName :: string
  readOnly :: bool
  connectionTimeout :: int
  trustServerCertificate :: bool
  useInteractiveBrowser :: bool

text \<open>
  A thrown value: an instance of \<open>Error\<close> with its name and message, or any other
  value, given by its string form.
\<close>

datatype error = ErrorObj string string | NonError string

text \<open>
  What \<open>credential.getToken\<close> resolves to. The code reads it with \<open>accessToken?.\<close>,
  so the whole value may be absent, and it tests \<open>expiresOnTimestamp\<close> for truthiness,
  so that field may be absent too. Instants are milliseconds since the epoch.
\<close>

record access_token =
  token :: string
  expiresOnTimestamp :: "int option"

record sql_config =
  server :: string
  database :: string
  options_encrypt :: bool
  options_trustServerCertificate :: bool
  authentication_type :: string
  authentication_token :: "string option"
  connectionTimeout_ms :: int

text \<open>The object returned by \<open>createSqlConfig\<close> (lines 47-67).\<close>

record sql_setup =
  setup_config :: sql_config
  setup_token :: "string option"
  expiresOn :: int

text \<open>
  The process state of lines 29-31 together with the pool objects the driver has
  created: a pool handle is an index into \<open>pools\<close>, which holds each pool's
  \<open>connected\<close> flag.
\<close>

record world =
  pools :: "bool list"
  globalSqlPool :: "nat option"
  globalAccessToken :: "string option"
  globalTokenExpiresOn :: "int option"

text \<open>
  What the outside does during one call: the clock readings of \<open>Date.now()\<close> at line 78
  and at line 66, and how the awaited calls to the credential provider and to the driver
  end. \<open>connected_after_failed_close\<close> is the flag a pool shows when its \<open>close\<close>
  was rejected.
\<close>

record env =
  now_check :: int
  getToken_result :: "error + access_token option"
  now_token :: int
  close_result :: "error option"
  connected_after_failed_close :: bool
  connect_result :: "error option"

text \<open>The network calls a call makes, in order.\<close>

datatype event = GetToken bool | ClosePool nat | Connect sql_config

record outcome =
  raised :: "error option"
  final :: world
  calls :: "event list"

definition initial :: world where
  "initial = \<lparr>pools = [], globalSqlPool = None, globalAccessToken = None,
     globalTokenExpiresOn = None\<rparr>"

subsection \<open>createSqlConfig\<close>

text \<open>
  The instants a \<open>Date\<close> can hold: at most 8.64e15 milliseconds from the epoch on
  either side. For an integer \<open>t\<close> in this range \<open>new Date(t)\<close> holds \<open>t\<close>; outside it
  the \<open>Date\<close> is invalid.
\<close>

definition in_date_range :: "int \<Rightarrow> bool" where
  "in_date_range t = (- 8640000000000000 \<le> t \<and> t \<le> 8640000000000000)"

text \<open>
  Lines 34-68, after \<open>getToken\<close> has settled with \<open>r\<close>; \<open>now\<close> is the clock at
  line 66. A timestamp of 0 is falsy, like an absent one (and like \<open>NaN\<close>, which has
  no other representation here). Timestamps are whole milliseconds, and
  \<open>new Date(t)\<close> is \<open>t\<close> itself, which is what the code stores for \<open>t\<close> within
  \<open>in_date_range\<close>; what is stated about the stored expiry is stated within that
  range.
\<close>

definition createSqlConfig ::
  "config \<Rightarrow> error + access_token option \<Rightarrow> int \<Rightarrow> error + sql_setup" where
  "createSqlConfig config r now =
     (case r of
        Inl e \<Rightarrow> Inl e
      | Inr accessToken \<Rightarrow>
          Inr \<lparr>setup_config =
                 \<lparr>server = serverName config,
                  database = databaseName config,
                  options_encrypt = True,
                  options_trustServerCertificate = trustServerCertificate config,
                  authentication_type = ''azure-active-directory-access-token'',
                  authentication_token = map_option token accessToken,
                  connectionTimeout_ms = connectionTimeout config * 1000\<rparr>,
               setup_token = map_option token accessToken,
               expiresOn =
                 (case Option.bind accessToken expiresOnTimestamp of
                    Some ts \<Rightarrow> if ts \<noteq> 0 then ts else now + 30 * 60 * 1000
                  | None \<Rightarrow> now + 30 * 60 * 1000)\<rparr>)"

subsection \<open>ensureSqlConnection\<close>

text \<open>
  The pool that \<open>globalSqlPool && globalSqlPool.connected\<close> (lines 74-75 and 89) finds,
  if any.
\<close>

definition connected_pool :: "world \<Rightarrow> nat option" where
  "connected_pool w =
     (case globalSqlPool w of
        None \<Rightarrow> None
      | Some p \<Rightarrow> if p < length (pools w) \<and> pools w ! p then Some p else None)"

text \<open>The condition of lines 73-79. An empty token string is falsy.\<close>

definition session_valid :: "world \<Rightarrow> int \<Rightarrow> bool" where
  "session_valid w now =
     (connected_pool w \<noteq> None \<and>
      (case globalAccessToken w of None \<Rightarrow> False | Some t \<Rightarrow> t \<noteq> []) \<and>
      (case globalTokenExpiresOn w of None \<Rightarrow> False | Some e \<Rightarrow> e > now + 2 * 60 * 1000))"

text \<open>
  The driver. \<open>pool.close()\<close> settling with \<open>r\<close>: a closed pool no longer reports
  connected. \<open>sql.connect\<close> settling with \<open>r\<close>: on success a new pool object exists
  and reports connected.
\<close>

definition close_pool :: "error option \<Rightarrow> bool \<Rightarrow> nat \<Rightarrow> world \<Rightarrow> error option \<times> world" where
  "close_pool r still p w =
     (case r of
        Some e \<Rightarrow> (Some e, w\<lparr>pools := (pools w)[p := still]\<rparr>)
      | None \<Rightarrow> (None, w\<lparr>pools := (pools w)[p := False]\<rparr>))"

definition connect :: "error option \<Rightarrow> world \<Rightarrow> error + nat \<times> world" where
  "connect r w =
     (case r of
        Some e \<Rightarrow> Inl e
      | None \<Rightarrow> Inr (length (pools w), w\<lparr>pools := pools w @ [True]\<rparr>))"

text \<open>Line 93: open the pool and, when it is open, store its handle.\<close>

definition open_pool :: "env \<Rightarrow> sql_config \<Rightarrow> event list \<Rightarrow> world \<Rightarrow> outcome" where
  "open_pool env c evs w =
     (case connect (connect_result env) w of
        Inl e \<Rightarrow> \<lparr>raised = Some e, final = w, calls = evs @ [Connect c]\<rparr>
      | Inr (p, w') \<Rightarrow>
          \<lparr>raised = None, final = w'\<lparr>globalSqlPool := Some p\<rparr>, calls = evs @ [Connect c]\<rparr>)"

text \<open>
  Lines 71-94, run without interruption. An error leaves the state as it is at the
  point of the throw.
\<close>

definition ensureSqlConnection :: "config \<Rightarrow> env \<Rightarrow> world \<Rightarrow> outcome" where
  "ensureSqlConnection config env w =
     (if session_valid w (now_check env) then \<lparr>raised = None, final = w, calls = []\<rparr>
      else
        case createSqlConfig config (getToken_result env) (now_token env) of
          Inl e \<Rightarrow>
            \<lparr>raised = Some e, final = w, calls = [GetToken (useInteractiveBrowser config)]\<rparr>
        | Inr sqlConfig \<Rightarrow>
            let w1 = w\<lparr>globalAccessToken := setup_token sqlConfig,
                       globalTokenExpiresOn := Some (expiresOn sqlConfig)\<rparr>
            in case connected_pool w1 of
                 Some p \<Rightarrow>
                   (case close_pool (close_result env) (connected_after_failed_close env) p w1 of
                      (Some e, w2) \<Rightarrow>
                        \<lparr>raised = Some e, final = w2,
                         calls = [GetToken (useInteractiveBrowser config), ClosePool p]\<rparr>
                    | (None, w2) \<Rightarrow>
                        open_pool env (setup_config sqlConfig)
                          [GetToken (useInteractiveBrowser config), ClosePool p] w2)
               | None \<Rightarrow>
                   open_pool env (setup_config sqlConfig)
                     [GetToken (useInteractiveBrowser config)] w1)"

text \<open>The handles of the pools that report connected.\<close>

definition live_pools :: "world \<Rightarrow> nat list" where
  "live_pools w = filter (\<lambda>i. pools w ! i) [0..<length (pools w)]"

subsection \<open>The same function between its await points\<close>

text \<open>
  \<open>ensureSqlConnection\<close> is an async function: it runs without interruption up to an
  \<open>await\<close> (lines 84/45, 90 and 93) and is resumed when the awaited call has settled.
  Other calls may run in between. \<open>pc\<close> is where a call stands, with the locals it
  still needs; a \<open>signal\<close> is what resumes it.
\<close>

datatype pc =
  Start | AwaitToken | AwaitClose nat sql_config | AwaitConnect sql_config
  | Returned | Threw error

datatype signal =
  Clock int
  | TokenSettled "error + access_token option" int
  | CloseSettled "error option" bool
  | ConnectSettled "error option"

fun step :: "config \<Rightarrow> signal \<Rightarrow> pc \<times> world \<Rightarrow> pc \<times> world" where
  "step config (Clock now) (Start, w) =
     (if session_valid w now then (Returned, w) else (AwaitToken, w))"
| "step config (TokenSettled r now) (AwaitToken, w) =
     (case createSqlConfig config r now of
        Inl e \<Rightarrow> (Threw e, w)
      | Inr sqlConfig \<Rightarrow>
          let w1 = w\<lparr>globalAccessToken := setup_token sqlConfig,
                     globalTokenExpiresOn := Some (expiresOn sqlConfig)\<rparr>
          in case connected_pool w1 of
               Some p \<Rightarrow> (AwaitClose p (setup_config sqlConfig), w1)
             | None \<Rightarrow> (AwaitConnect (setup_config sqlConfig), w1))"
| "step config (CloseSettled r still) (AwaitClose p c, w) =
     (case close_pool r still p w of
        (Some e, w2) \<Rightarrow> (Threw e, w2)
      | (None, w2) \<Rightarrow> (AwaitConnect c, w2))"
| "step config (ConnectSettled r) (AwaitConnect c, w) =
     (case connect r w of
        Inl e \<Rightarrow> (Threw e, w)
      | Inr (p, w') \<Rightarrow> (Returned, w'\<lparr>globalSqlPool := Some p\<rparr>))"
| "step config sg (k, w) = (k, w)"

text \<open>The signals one call receives when the outside behaves as \<open>env\<close> says.\<close>

definition signals :: "env \<Rightarrow> signal list" where
  "signals env =
     [Clock (now_check env),
      TokenSettled (getToken_result env) (now_token env),
      CloseSettled (close_result env) (connected_after_failed_close env),
      ConnectSettled (connect_result env)]"

text \<open>
  The states a call goes through, one after each signal; a signal that does not match
  the place where the call stands (the close when there is nothing to close, anything
  after a return or a throw) is skipped.
\<close>

fun instants :: "config \<Rightarrow> signal list \<Rightarrow> pc \<times> world \<Rightarrow> (pc \<times> world) list" where
  "instants config [] s = [s]"
| "instants config (sg # sgs) s = s # instants config sgs (step config sg s)"

text \<open>
  Two calls in flight at once: each entry of the schedule resumes the first
  (\<open>True\<close>) or the second (\<open>False\<close>) call with a signal.
\<close>

fun interleave :: "config \<Rightarrow> (bool \<times> signal) list \<Rightarrow> pc \<times> pc \<times> world \<Rightarrow> pc \<times> pc \<times> world" where
  "interleave config [] s = s"
| "interleave config ((who, sg) # rest) (a, b, w) =
     (if who
      then (case step config sg (a, w) of (a', w') \<Rightarrow> interleave config rest (a', b, w'))
      else (case step config sg (b, w) of (b', w') \<Rightarrow> interleave config rest (a, b', w')))"

text \<open>Calls made strictly one after the other, each with its own outside behaviour.\<close>

fun serial :: "config \<Rightarrow> env list \<Rightarrow> world \<Rightarrow> world" where
  "serial config [] w = w"
| "serial config (env # envs) w = serial config envs (final (ensureSqlConnection config env w))"

text \<open>Where a finished call stands: it has returned or thrown.\<close>

definition settled :: "outcome \<Rightarrow> pc \<times> world" where
  "settled r = (case raised r of None \<Rightarrow> Returned | Some e \<Rightarrow> Threw e, final r)"

text \<open>No pool other than the one \<open>globalSqlPool\<close> refers to reports connected.\<close>

definition only_session_pool :: "world \<Rightarrow> bool" where
  "only_session_pool w = (set (live_pools w) \<subseteq> set_option (globalSqlPool w))"

text \<open>
  What holds of the pools at each place of a call that runs alone: while the old pool
  is being closed it is the only one that may be connected, and while the new one is
  being opened none is.
\<close>

fun good :: "pc \<times> world \<Rightarrow> bool" where
  "good (AwaitClose p c, w) = (set (live_pools w) \<subseteq> {p} \<and> globalSqlPool w = Some p)"
| "good (AwaitConnect c, w) = (live_pools w = [])"
| "good (k, w) = only_session_pool w"

subsection \<open>The tool handler\<close>

datatype json =
  JNull | JBool bool | JNumber int | JString string | JArray "json list"
  | JObject "(string \<times> json) list"

record text_content =
  content_type :: string
  content_text :: string

text \<open>The handler's result; \<open>isError\<close> is absent from a success.\<close>

record response =
  content :: "text_content list"
  isError :: "bool option"

text \<open>\<open>`${error}`\<close>: \<open>Error.prototype.toString\<close> for an \<open>Error\<close>.\<close>

fun to_string :: "error \<Rightarrow> string" where
  "to_string (ErrorObj n m) = (if n = [] then m else if m = [] then n else n @ '': '' @ m)"
| "to_string (NonError s) = s"

text \<open>The object built in the catch block (lines 152-156).\<close>

fun failure :: "error \<Rightarrow> json" where
  "failure e =
     JObject [(''success'', JBool False),
              (''message'', JString (''Error occurred: '' @ to_string e)),
              (''error'', JString (case e of ErrorObj n m \<Rightarrow> m | NonError s \<Rightarrow> ''Unknown error''))]"

text \<open>\<open>try { ... } catch (error) { ... }\<close>, with the state each block leaves.\<close>

definition try_catch ::
  "(error + 'a) \<times> world \<Rightarrow> (error \<Rightarrow> world \<Rightarrow> (error + 'a) \<times> world) \<Rightarrow> (error + 'a) \<times> world" where
  "try_catch body handle =
     (case body of
        (Inl e, w) \<Rightarrow> handle e w
      | (Inr v, w) \<Rightarrow> (Inr v, w))"

text \<open>
  The handler registered for a tool (lines 137-161). \<open>stringify\<close> is
  \<open>JSON.stringify(_, null, 2)\<close> and \<open>run\<close> is the tool's \<open>run\<close>, as it settles for
  the arguments in the state it finds; both are given from outside.
\<close>

definition handler ::
  "(json \<Rightarrow> string) \<Rightarrow> ('a \<Rightarrow> world \<Rightarrow> error + json) \<Rightarrow> config \<Rightarrow> env \<Rightarrow> 'a \<Rightarrow> world
     \<Rightarrow> (error + response) \<times> world" where
  "handler stringify run config env args w =
     try_catch
       (let r = ensureSqlConnection config env w in
        case raised r of
          Some e \<Rightarrow> (Inl e, final r)
        | None \<Rightarrow>
            (case run args (final r) of
               Inl e \<Rightarrow> (Inl e, final r)
             | Inr result \<Rightarrow>
                 (Inr \<lparr>content = [\<lparr>content_type = ''text'', content_text = stringify result\<rparr>],
                       isError = None\<rparr>,
                  final r)))
       (\<lambda>error w'.
          (Inr \<lparr>content = [\<lparr>content_type = ''text'', content_text = stringify (failure error)\<rparr>],
                isError = Some True\<rparr>,
           w'))"

subsection \<open>Tool registration\<close>

text \<open>
  A tool object as lines 120-136 use it. The tool classes are imported from
  \<open>./tools/\<close>; the eight instances of lines 104-111 are taken as given.
\<close>

record property =
  prop_type :: "string option"
  prop_description :: "string option"

record tool =
  name :: string
  description :: string
  inputSchema_properties :: "(string \<times> property) list option"

record toolset =
  updateDataTool :: tool
  insertDataTool :: tool
  readDataTool :: tool
  createTableTool :: tool
  createIndexTool :: tool
  listTableTool :: tool
  dropTableTool :: tool
  describeTableTool :: tool

text \<open>Lines 114-117.\<close>

definition tools :: "config \<Rightarrow> toolset \<Rightarrow> tool list" where
  "tools config ts =
     (if readOnly config
      then [listTableTool ts, readDataTool ts, describeTableTool ts]
      else [insertDataTool ts, readDataTool ts, describeTableTool ts, updateDataTool ts,
            createTableTool ts, createIndexTool ts, dropTableTool ts, listTableTool ts])"

datatype zod = ZString string | ZObject string

text \<open>\<open>value.description || ''\<close>.\<close>

definition describe :: "property \<Rightarrow> string" where
  "describe v = (case prop_description v of None \<Rightarrow> [] | Some d \<Rightarrow> d)"

text \<open>Lines 122-131: the entries of \<open>properties\<close> in order, each assigned by key.\<close>

definition zodSchema :: "tool \<Rightarrow> (string \<rightharpoonup> zod)" where
  "zodSchema tool =
     (case inputSchema_properties tool of
        None \<Rightarrow> Map.empty
      | Some props \<Rightarrow>
          fold (\<lambda>(key, v) z.
                  if prop_type v = Some ''string'' then z(key \<mapsto> ZString (describe v))
                  else if prop_type v = Some ''object'' then z(key \<mapsto> ZObject (describe v))
                  else z)
               props Map.empty)"

text \<open>The calls of \<open>server.tool\<close> (lines 133-136), without the handler.\<close>

definition registered :: "config \<Rightarrow> toolset \<Rightarrow> (string \<times> string \<times> (string \<rightharpoonup> zod)) list" where
  "registered config ts = map (\<lambda>t. (name t, description t, zodSchema t)) (tools config ts)"

text \<open>The server finds the tool to invoke by its registered name.\<close>

definition dispatch :: "config \<Rightarrow> toolset \<Rightarrow> string \<Rightarrow> tool option" where
  "dispatch config ts n = find (\<lambda>t. name t = n) (tools config ts)"

text \<open>The write-oriented tools among the eight.\<close>

definition write_tools :: "toolset \<Rightarrow> tool list" where
  "write_tools ts = [insertDataTool ts, updateDataTool ts, createTableTool ts,
     createIndexTool ts, dropTableTool ts]"


section \<open>Query safety validator\<close>

text \<open>
  Modelled from the spec: the validator of section 4.2 belongs to the read tool
  (\<open>./tools/ReadDataTool\<close>, imported at line 11 of src/index.ts), whose source is not
  available; \<open>index.ts\<close> only calls the tool's \<open>run\<close>. The definitions of this
  section follow the words of the specification. Whitespace is the ASCII blank
  characters.
\<close>

definition is_space :: "char \<Rightarrow> bool" where
  "is_space c = (c \<in> set [CHR '' '', CHR 0x09, CHR 0x0A, CHR 0x0B, CHR 0x0C, CHR 0x0D])"

definition lower_letters :: string where
  "lower_letters = ''abcdefghijklmnopqrstuvwxyz''"

definition upper_letters :: string where
  "upper_letters = ''ABCDEFGHIJKLMNOPQRSTUVWXYZ''"

text \<open>
  Modelled from the spec: the characters of a word, for "whole word" and "word
  boundaries": letters, digits and the underscore (the specification's
  \<open>updates_log\<close> is one word).
\<close>

definition is_word_char :: "char \<Rightarrow> bool" where
  "is_word_char c = (c \<in> set (lower_letters @ upper_letters @ ''0123456789_''))"

text \<open>Modelled from the spec: "case-insensitively", by upper-casing ASCII letters.\<close>

definition upper :: "char \<Rightarrow> char" where
  "upper c = (case map_of (zip lower_letters upper_letters) c of None \<Rightarrow> c | Some u \<Rightarrow> u)"

text \<open>Modelled from the spec: policy step 1, "after trimming whitespace, is empty".\<close>

definition blank :: "string \<Rightarrow> bool" where
  "blank s = list_all is_space s"

text \<open>
  Modelled from the spec: policy step 2, a statement separator "followed by further
  non-whitespace content".
\<close>

fun multi_statement :: "string \<Rightarrow> bool" where
  "multi_statement [] = False"
| "multi_statement (c # cs) = ((c = CHR '';'' \<and> \<not> blank cs) \<or> multi_statement cs)"

text \<open>
  Modelled from the spec: "the check in step 3 must tokenize on word boundaries". The
  tokens of a fragment are its maximal runs of word characters.
\<close>

function words :: "string \<Rightarrow> string list" where
  "words [] = []"
| "words (c # cs) =
     (if is_word_char c
      then takeWhile is_word_char (c # cs) # words (dropWhile is_word_char cs)
      else words cs)"
  by pat_completeness auto
termination
  by (relation "measure length") (auto simp: length_dropWhile_le le_imp_less_Suc)

text \<open>Modelled from the spec: the fixed denylist of policy step 3.\<close>

definition denylist :: "string list" where
  "denylist = [''INSERT'', ''UPDATE'', ''DELETE'', ''DROP'', ''ALTER'', ''CREATE'', ''TRUNCATE'',
     ''EXEC'', ''EXECUTE'', ''MERGE'', ''GRANT'', ''REVOKE'', ''BACKUP'', ''RESTORE'']"

text \<open>Modelled from the spec: policy step 3, a token that is a denylisted keyword.\<close>

definition denylisted :: "string \<Rightarrow> bool" where
  "denylisted s = list_ex (\<lambda>w. map upper w \<in> set denylist) (words s)"

text \<open>
  Modelled from the spec: policy step 4, a comment opener \<open>--\<close> or \<open>/*\<close> "not
  immediately followed by end of input".
\<close>

fun comment_inside :: "string \<Rightarrow> bool" where
  "comment_inside (a # b # rest) =
     (((a = CHR ''-'' \<and> b = CHR ''-'') \<or> (a = CHR ''/'' \<and> b = CHR ''*'')) \<and> rest \<noteq> []
      \<or> comment_inside (b # rest))"
| "comment_inside s = False"

text \<open>
  Modelled from the spec: policy step 5, the keyword the fragment begins with once
  leading whitespace is stripped. After step 4 a comment opener can only stand at the
  very end, so stripping leading comments changes nothing that step 5 accepts.
\<close>

definition leading_keyword :: "string \<Rightarrow> string" where
  "leading_keyword s = map upper (takeWhile is_word_char (dropWhile is_space s))"

datatype reason = Empty | MultiStatement | DenylistedKeyword | DisallowedComment | NonSelectPrefix

datatype verdict = Accept | Reject reason

datatype mode = ReadOnly | FullAccess

text \<open>
  Modelled from the spec: \<open>validate(sqlText, mode)\<close>, the policy "applied in order;
  first match wins". The write-oriented operations do not go through the validator, so
  the mode does not change its verdict.
\<close>

definition validate :: "string \<Rightarrow> mode \<Rightarrow> verdict" where
  "validate sqlText m =
     (if blank sqlText then Reject Empty
      else if multi_statement sqlText then Reject MultiStatement
      else if denylisted sqlText then Reject DenylistedKeyword
      else if comment_inside sqlText then Reject DisallowedComment
      else if leading_keyword sqlText \<notin> {''SELECT'', ''WITH''} then Reject NonSelectPrefix
      else Accept)"

text \<open>
  The specification's "contains ... as a whole word", stated on the text itself: an
  occurrence of the keyword, in any letter case, with no word character next to it on
  either side.
\<close>

definition whole_word :: "string \<Rightarrow> string \<Rightarrow> bool" where
  "whole_word k s =
     (\<exists>pre mid post. s = pre @ mid @ post \<and> map upper mid = k
        \<and> (pre = [] \<or> \<not> is_word_char (last pre))
        \<and> (post = [] \<or> \<not> is_word_char (hd post)))"

definition run_at :: "string \<Rightarrow> string \<Rightarrow> bool" where
  "run_at w s =
     (\<exists>pre post. s = pre @ w @ post
        \<and> (pre = [] \<or> \<not> is_word_char (last pre))
        \<and> (post = [] \<or> \<not> is_word_char (hd post)))"

section \<open>Concrete inputs\<close>

definition config0 :: config where
  "config0 = \<lparr>serverName = ''my-server.database.windows.net'', databaseName = ''sales'',
     readOnly = True, connectionTimeout = 30, trustServerCertificate = False,
     useInteractiveBrowser = True\<rparr>"

text \<open>
  An outside where the clock reads 1000 at the check and 1500 when the token has
  arrived, the provider settles with \<open>r\<close>, closing succeeds and opening settles
  with \<open>c\<close>.
\<close>

definition env_of :: "error + access_token option \<Rightarrow> error option \<Rightarrow> env" where
  "env_of r c = \<lparr>now_check = 1000, getToken_result = r, now_token = 1500, close_result = None,
     connected_after_failed_close = False, connect_result = c\<rparr>"

text \<open>A session with one connected pool, token \<open>t\<close> and expiry \<open>e\<close>.\<close>

definition session_world :: "string \<Rightarrow> int \<Rightarrow> world" where
  "session_world t e = \<lparr>pools = [True], globalSqlPool = Some 0, globalAccessToken = Some t,
     globalTokenExpiresOn = Some e\<rparr>"

definition token0 :: access_token where
  "token0 = \<lparr>token = ''tok'', expiresOnTimestamp = Some 5000000\<rparr>"

text \<open>
  Two calls started one after the other before either has its token: both open a
  pool.
\<close>

definition overlap_schedule :: "(bool \<times> signal) list" where
  "overlap_schedule =
     [(True, Clock 1000), (False, Clock 1000),
      (True, TokenSettled (Inr (Some token0)) 1500),
      (False, TokenSettled (Inr (Some token0)) 1500),
      (True, ConnectSettled None), (False, ConnectSettled None)]"

text \<open>
  The first call has returned with its pool installed when the second call's token
  arrives: the second call closes that pool.
\<close>

definition late_schedule :: "(bool \<times> signal) list" where
  "late_schedule =
     [(True, Clock 1000), (False, Clock 1000),
      (True, TokenSettled (Inr (Some token0)) 1500),
      (True, ConnectSettled None),
      (False, TokenSettled (Inr (Some token0)) 1500),
      (False, CloseSettled None False)]"



definition plain_tool :: "string \<Rightarrow> tool" where
  "plain_tool n = \<lparr>name = n, description = [], inputSchema_properties = None\<rparr>"

text \<open>The eight tools under the names the README lists.\<close>

definition readme_tools :: toolset where
  "readme_tools =
     \<lparr>updateDataTool = plain_tool ''update_data'',
      insertDataTool = plain_tool ''insert_data'',
      readDataTool = plain_tool ''read_data'',
      createTableTool = plain_tool ''create_table'',
      createIndexTool = plain_tool ''create_index'',
      listTableTool = plain_tool ''list_tables'',
      dropTableTool = plain_tool ''drop_table'',
      describeTableTool = plain_tool ''describe_table''\<rparr>"



section \<open>Properties of the connection lifecycle\<close>

subsection \<open>Connected pools\<close>

lemma set_live_pools: "set (live_pools w) = {i. i < length (pools w) \<and> pools w ! i}"
  by (auto simp: live_pools_def)

lemma distinct_live_pools: "distinct (live_pools w)"
  by (simp add: live_pools_def)

lemma only_session_pool_le1:
  assumes "only_session_pool w"
  shows "length (live_pools w) \<le> 1"
proof -
  have "card (set (live_pools w)) \<le> card (set_option (globalSqlPool w))"
    using assms unfolding only_session_pool_def by (intro card_mono) auto
  also have "\<dots> \<le> 1" by (cases "globalSqlPool w") auto
  finally show ?thesis using distinct_card [OF distinct_live_pools, of w] by simp
qed

lemma live_pools_upd [simp]:
  "live_pools (w\<lparr>globalAccessToken := t\<rparr>) = live_pools w"
  "live_pools (w\<lparr>globalTokenExpiresOn := e\<rparr>) = live_pools w"
  "live_pools (w\<lparr>globalSqlPool := g\<rparr>) = live_pools w"
  by (simp_all add: live_pools_def)

lemma connected_pool_Some:
  "connected_pool w = Some p \<longleftrightarrow> globalSqlPool w = Some p \<and> p < length (pools w) \<and> pools w ! p"
  by (auto simp: connected_pool_def split: option.splits if_splits)

lemma connected_pool_None:
  "connected_pool w = None \<longleftrightarrow> (\<forall>p. globalSqlPool w = Some p \<longrightarrow> \<not> (p < length (pools w) \<and> pools w ! p))"
  by (auto simp: connected_pool_def split: option.splits if_splits)

lemma live_pools_empty_iff: "live_pools w = [] \<longleftrightarrow> (\<forall>i < length (pools w). \<not> pools w ! i)"
  by (auto simp: live_pools_def filter_empty_conv)

lemma live_subset_iff:
  "set (live_pools w) \<subseteq> {p} \<longleftrightarrow> (\<forall>i < length (pools w). pools w ! i \<longrightarrow> i = p)"
  by (auto simp: set_live_pools)

lemma live_after_close:
  "set (live_pools w) \<subseteq> {p} \<Longrightarrow> live_pools (w\<lparr>pools := (pools w)[p := False]\<rparr>) = []"
proof -
  assume a: "set (live_pools w) \<subseteq> {p}"
  have "\<not> (pools w)[p := False] ! i" if "i < length (pools w)" for i
    using a that by (cases "i = p") (auto simp: live_subset_iff)
  then show ?thesis by (simp add: live_pools_empty_iff)
qed

lemma live_after_failed_close:
  "set (live_pools w) \<subseteq> {p} \<Longrightarrow> set (live_pools (w\<lparr>pools := (pools w)[p := b]\<rparr>)) \<subseteq> {p}"
proof -
  assume a: "set (live_pools w) \<subseteq> {p}"
  have "i = p" if "i < length (pools w)" "(pools w)[p := b] ! i" for i
    using a that by (cases "i = p") (auto simp: live_subset_iff)
  then show ?thesis by (simp add: live_subset_iff)
qed

lemma live_after_connect:
  "live_pools w = [] \<Longrightarrow> set (live_pools (w\<lparr>pools := pools w @ [True]\<rparr>)) = {length (pools w)}"
  by (auto simp: live_pools_empty_iff set_live_pools nth_append)

lemma only_session_pool_none:
  "only_session_pool w \<Longrightarrow> connected_pool w = None \<Longrightarrow> live_pools w = []"
  by (cases "globalSqlPool w")
     (auto simp: only_session_pool_def live_pools_empty_iff set_live_pools connected_pool_None)

lemma only_session_pool_some:
  "only_session_pool w \<Longrightarrow> connected_pool w = Some p \<Longrightarrow> set (live_pools w) \<subseteq> {p}"
  by (auto simp: only_session_pool_def connected_pool_Some)

lemma connected_pool_upd [simp]:
  "connected_pool (w\<lparr>globalAccessToken := t\<rparr>) = connected_pool w"
  "connected_pool (w\<lparr>globalTokenExpiresOn := e\<rparr>) = connected_pool w"
  by (simp_all add: connected_pool_def split: option.splits)

lemma only_session_pool_upd [simp]:
  "only_session_pool (w\<lparr>globalAccessToken := t\<rparr>) = only_session_pool w"
  "only_session_pool (w\<lparr>globalTokenExpiresOn := e\<rparr>) = only_session_pool w"
  by (simp_all add: only_session_pool_def)

text \<open>Every resumption of a call that runs alone keeps the pools as \<open>good\<close> says.\<close>

lemma good_step: "good s \<Longrightarrow> good (step config sg s)"
proof (induction config sg s rule: step.induct)
  case (1 config now w)
  then show ?case by simp
next
  case (2 config r now w)
  then show ?case
    by (auto simp: Let_def connected_pool_Some dest: only_session_pool_none only_session_pool_some
        split: sum.splits option.splits)
next
  case (3 config r still p c w)
  then show ?case
    using live_after_close [of w p] live_after_failed_close [of w p still]
    by (auto simp: close_pool_def only_session_pool_def split: option.splits)
next
  case (4 config r c w)
  then show ?case
    using live_after_connect [of w]
    by (auto simp: connect_def only_session_pool_def split: option.splits)
qed (simp_all)

lemma good_instants: "good s \<Longrightarrow> \<forall>s' \<in> set (instants config sgs s). good s'"
proof (induction sgs arbitrary: s)
  case Nil
  then show ?case by simp
next
  case (Cons sg sgs)
  from Cons.prems have "good (step config sg s)" by (rule good_step)
  then have "\<forall>s' \<in> set (instants config sgs (step config sg s)). good s'" by (rule Cons.IH)
  with Cons.prems show ?case by simp
qed


lemma good_start: "only_session_pool w \<Longrightarrow> good (Start, w)"
  by simp

text \<open>Resumed with the signals of \<open>env\<close>, a call ends as the uninterrupted function does.\<close>

lemma instants_last:
  "last (instants config (signals env) (Start, w)) = settled (ensureSqlConnection config env w)"
  by (auto simp: signals_def ensureSqlConnection_def settled_def Let_def open_pool_def
        close_pool_def connect_def
      split: sum.splits option.splits prod.splits)

lemma ensure_only_session_pool:
  assumes "only_session_pool w"
  shows "only_session_pool (final (ensureSqlConnection config env w))"
proof -
  have "last (instants config (signals env) (Start, w))
      \<in> set (instants config (signals env) (Start, w))"
    by (simp add: signals_def)
  with good_instants [OF good_start [OF assms], of config "signals env"]
  have "good (settled (ensureSqlConnection config env w))"
    by (simp add: instants_last)
  then show ?thesis
    by (cases "raised (ensureSqlConnection config env w)") (simp_all add: settled_def)
qed

subsection \<open>Failure during a refresh\<close>

text \<open>
  Claim C1, amended. When the fast path is not taken: if acquiring the token fails,
  the whole state is left as it was. If the token arrives and opening the new pool
  fails (the old pool, if connected, having been closed), no new handle is installed:
  \<open>globalSqlPool\<close> still refers to the prior pool, no pool has been added, the prior
  pool is closed if it was connected and every other pool is as before, and the state
  left behind never satisfies the fast-path condition, so the next call refreshes
  again. Nothing is said here of the stored token and expiry in that case.
\<close>

theorem ensure_failure_state:
  assumes "\<not> session_valid w (now_check env)"
  shows "(\<forall>e. getToken_result env = Inl e \<longrightarrow>
            raised (ensureSqlConnection config env w) = Some e
            \<and> final (ensureSqlConnection config env w) = w)
       \<and> (\<forall>a e. getToken_result env = Inr a \<and> close_result env = None
              \<and> connect_result env = Some e \<longrightarrow>
            raised (ensureSqlConnection config env w) = Some e
            \<and> globalSqlPool (final (ensureSqlConnection config env w)) = globalSqlPool w
            \<and> pools (final (ensureSqlConnection config env w))
                = (case connected_pool w of None \<Rightarrow> pools w | Some p \<Rightarrow> (pools w)[p := False])
            \<and> connected_pool (final (ensureSqlConnection config env w)) = None
            \<and> (\<forall>now. \<not> session_valid (final (ensureSqlConnection config env w)) now))"
  using assms
  by (auto simp: ensureSqlConnection_def createSqlConfig_def Let_def open_pool_def
        close_pool_def connect_def connected_pool_def session_valid_def
      split: option.splits if_splits)

theorem ensure_failure_state_witness:
  "\<not> session_valid (session_world ''old'' 1200) (now_check (env_of (Inl (NonError ''denied'')) None))
   \<and> final (ensureSqlConnection config0 (env_of (Inl (NonError ''denied'')) None)
        (session_world ''old'' 1200)) = session_world ''old'' 1200
   \<and> globalSqlPool (final (ensureSqlConnection config0
        (env_of (Inr (Some token0)) (Some (NonError ''timeout''))) (session_world ''old'' 1200)))
      = Some 0
   \<and> pools (final (ensureSqlConnection config0
        (env_of (Inr (Some token0)) (Some (NonError ''timeout''))) (session_world ''old'' 1200)))
      = [False]"
  using ensure_failure_state [of "session_world ''old'' 1200"
      "env_of (Inl (NonError ''denied'')) None" config0]
    ensure_failure_state [of "session_world ''old'' 1200"
      "env_of (Inr (Some token0)) (Some (NonError ''timeout''))" config0]
  by (simp add: session_valid_def connected_pool_def session_world_def env_of_def)

text \<open>
  The claim as stated fails: with an expired session and a provider that issues a
  token, a failing \<open>sql.connect\<close> leaves the fresh token and its expiry stored in place
  of the prior ones (lines 85-86 run before line 93).
\<close>

theorem ensure_partial_session_counterexample:
  "\<not> session_valid (session_world ''old'' 1200)
       (now_check (env_of (Inr (Some token0)) (Some (NonError ''timeout''))))
   \<and> raised (ensureSqlConnection config0
        (env_of (Inr (Some token0)) (Some (NonError ''timeout''))) (session_world ''old'' 1200))
      = Some (NonError ''timeout'')
   \<and> globalAccessToken (final (ensureSqlConnection config0
        (env_of (Inr (Some token0)) (Some (NonError ''timeout''))) (session_world ''old'' 1200)))
      = Some ''tok''
   \<and> globalAccessToken (session_world ''old'' 1200) = Some ''old''
   \<and> globalTokenExpiresOn (final (ensureSqlConnection config0
        (env_of (Inr (Some token0)) (Some (NonError ''timeout''))) (session_world ''old'' 1200)))
      = Some 5000000
   \<and> globalTokenExpiresOn (session_world ''old'' 1200) = Some 1200"
  by (simp add: ensureSqlConnection_def session_valid_def connected_pool_def
        env_of_def session_world_def createSqlConfig_def config0_def open_pool_def connect_def
        close_pool_def token0_def)

subsection \<open>The fast path\<close>

text \<open>
  Claim C2, amended. In a state where the pool handle is set and reports connected,
  the stored token is a non-empty string, and the stored expiry is more than 2 minutes
  after the clock reading, the call returns at once: no network call, no error, the
  state unchanged, and no later signal changes it.
\<close>

theorem ensure_fast_path:
  assumes "connected_pool w = Some p"
    and "globalAccessToken w = Some t" and "t \<noteq> []"
    and "globalTokenExpiresOn w = Some e" and "e > now_check env + 2 * 60 * 1000"
  shows "ensureSqlConnection config env w = \<lparr>raised = None, final = w, calls = []\<rparr>
    \<and> instants config (signals env) (Start, w) = [(Start, w), (Returned, w), (Returned, w), (Returned, w), (Returned, w)]"
  using assms by (simp add: ensureSqlConnection_def session_valid_def signals_def numeral_eq_Suc)

theorem ensure_fast_path_witness:
  "connected_pool (session_world ''tok'' 5000000) = Some 0
   \<and> calls (ensureSqlConnection config0 (env_of (Inl (NonError ''unused'')) None)
        (session_world ''tok'' 5000000)) = []
   \<and> final (ensureSqlConnection config0 (env_of (Inl (NonError ''unused'')) None)
        (session_world ''tok'' 5000000)) = session_world ''tok'' 5000000"
  using ensure_fast_path [of "session_world ''tok'' 5000000" 0 "''tok''" 5000000
      "env_of (Inl (NonError ''unused'')) None" config0]
  by (simp add: session_world_def env_of_def connected_pool_def)

text \<open>
  The claim as stated fails for a session whose stored token is the empty string,
  which line 76 treats as absent. Such a session is what a successful first call
  installs when the provider returns an empty token string; the next call, at the
  same clock reading, with a connected pool and an expiry far ahead, asks the provider
  again.
\<close>

theorem ensure_blank_token_counterexample:
  "final (ensureSqlConnection config0
       (env_of (Inr (Some \<lparr>token = [], expiresOnTimestamp = Some 5000000\<rparr>)) None) initial)
     = session_world [] 5000000
   \<and> connected_pool (session_world [] 5000000) = Some 0
   \<and> globalAccessToken (session_world [] 5000000) = Some []
   \<and> globalTokenExpiresOn (session_world [] 5000000) = Some 5000000
   \<and> 5000000 > now_check (env_of (Inl (NonError ''down'')) None) + 2 * 60 * 1000
   \<and> calls (ensureSqlConnection config0 (env_of (Inl (NonError ''down'')) None)
        (session_world [] 5000000)) = [GetToken True]
   \<and> raised (ensureSqlConnection config0 (env_of (Inl (NonError ''down'')) None)
        (session_world [] 5000000)) = Some (NonError ''down'')"
  by (simp add: ensureSqlConnection_def session_valid_def connected_pool_def initial_def
        env_of_def session_world_def createSqlConfig_def config0_def open_pool_def connect_def)

subsection \<open>Closing before opening\<close>




subsection \<open>Calls in flight at once\<close>

text \<open>
  Claim C4, amended. The code holds no lock. Calls made strictly one after the other,
  each completing before the next starts, keep the invariant that only the session's
  pool reports connected, hence at most one pool does, whatever the outside does in
  each call.
\<close>

theorem serial_single_pool:
  assumes "only_session_pool w"
  shows "only_session_pool (serial config envs w)
       \<and> length (live_pools (serial config envs w)) \<le> 1"
  using assms
proof (induction envs arbitrary: w)
  case Nil
  then show ?case using only_session_pool_le1 [of w] by simp
next
  case (Cons env envs)
  from Cons.prems have "only_session_pool (final (ensureSqlConnection config env w))"
    by (rule ensure_only_session_pool)
  then show ?case using Cons.IH by simp
qed

theorem serial_single_pool_witness:
  "only_session_pool initial
   \<and> length (live_pools (serial config0
        [env_of (Inr (Some token0)) None, env_of (Inr (Some token0)) None] initial)) \<le> 1
   \<and> pools (serial config0
        [env_of (Inr (Some token0)) None, env_of (Inr (Some token0)) None] initial) = [True]"
proof -
  have o: "only_session_pool initial"
    by (simp add: only_session_pool_def initial_def live_pools_def)
  have "pools (serial config0
        [env_of (Inr (Some token0)) None, env_of (Inr (Some token0)) None] initial) = [True]"
    by (simp add: ensureSqlConnection_def session_valid_def connected_pool_def initial_def
        env_of_def createSqlConfig_def config0_def open_pool_def connect_def
        close_pool_def token0_def)
  then show ?thesis
    using serial_single_pool [OF o, of config0
        "[env_of (Inr (Some token0)) None, env_of (Inr (Some token0)) None]"] o
    by simp
qed

text \<open>
  The claim as stated fails: two calls that both pass the check of lines 73-79 before
  either has installed a pool both open one, and two pools report connected at the
  end; and a call whose token arrives after another call has installed its pool closes
  that pool.
\<close>

theorem interleave_overlap_counterexample:
  "interleave config0 overlap_schedule (Start, Start, initial)
     = (Returned, Returned,
        \<lparr>pools = [True, True], globalSqlPool = Some 1, globalAccessToken = Some ''tok'',
         globalTokenExpiresOn = Some 5000000\<rparr>)
   \<and> live_pools (snd (snd (interleave config0 overlap_schedule (Start, Start, initial)))) = [0, 1]
   \<and> fst (interleave config0 late_schedule (Start, Start, initial)) = Returned
   \<and> pools (snd (snd (interleave config0 late_schedule (Start, Start, initial)))) = [False]"
  by (simp add: overlap_schedule_def late_schedule_def initial_def session_valid_def
        connected_pool_def createSqlConfig_def config0_def connect_def close_pool_def token0_def
        live_pools_def upt_rec)

subsection \<open>Token expiry\<close>

text \<open>
  Claim C9, amended. When a call refreshes and the provider returns a token: without
  an expiry timestamp the stored expiry is the clock reading of line 66 plus 30
  minutes, that instant being one a \<open>Date\<close> can hold; with an expiry timestamp that
  is a non-zero whole number of milliseconds within the range of \<open>Date\<close> the stored
  expiry is that timestamp; a timestamp of 0 is treated as absent.
\<close>

theorem ensure_expiry:
  assumes "\<not> session_valid w (now_check env)" and "getToken_result env = Inr (Some a)"
  shows "(expiresOnTimestamp a = None \<and> in_date_range (now_token env + 30 * 60 * 1000) \<longrightarrow>
            globalTokenExpiresOn (final (ensureSqlConnection config env w))
              = Some (now_token env + 30 * 60 * 1000))
       \<and> (\<forall>ts. expiresOnTimestamp a = Some ts \<and> ts \<noteq> 0 \<and> in_date_range ts \<longrightarrow>
            globalTokenExpiresOn (final (ensureSqlConnection config env w)) = Some ts)
       \<and> (expiresOnTimestamp a = Some 0 \<and> in_date_range (now_token env + 30 * 60 * 1000) \<longrightarrow>
            globalTokenExpiresOn (final (ensureSqlConnection config env w))
              = Some (now_token env + 30 * 60 * 1000))"
  using assms
  by (auto simp: ensureSqlConnection_def createSqlConfig_def Let_def open_pool_def
        close_pool_def connect_def
      split: option.splits)

theorem ensure_expiry_witness:
  "\<not> session_valid initial (now_check (env_of (Inr (Some \<lparr>token = ''tok'', expiresOnTimestamp = None\<rparr>)) None))
   \<and> in_date_range (now_token (env_of (Inr (Some \<lparr>token = ''tok'', expiresOnTimestamp = None\<rparr>)) None)
        + 30 * 60 * 1000)
   \<and> in_date_range 5000000
   \<and> globalTokenExpiresOn (final (ensureSqlConnection config0
        (env_of (Inr (Some \<lparr>token = ''tok'', expiresOnTimestamp = None\<rparr>)) None) initial))
      = Some 1801500
   \<and> globalTokenExpiresOn (final (ensureSqlConnection config0
        (env_of (Inr (Some \<lparr>token = ''tok'', expiresOnTimestamp = Some 5000000\<rparr>)) None) initial))
      = Some 5000000"
  using ensure_expiry [of initial
      "env_of (Inr (Some \<lparr>token = ''tok'', expiresOnTimestamp = None\<rparr>)) None"
      "\<lparr>token = ''tok'', expiresOnTimestamp = None\<rparr>" config0]
    ensure_expiry [of initial
      "env_of (Inr (Some \<lparr>token = ''tok'', expiresOnTimestamp = Some 5000000\<rparr>)) None"
      "\<lparr>token = ''tok'', expiresOnTimestamp = Some 5000000\<rparr>" config0]
  by (simp add: session_valid_def connected_pool_def initial_def env_of_def in_date_range_def)

text \<open>
  The claim as stated fails at the timestamp 0, an instant a \<open>Date\<close> can hold, which
  the test of line 64 takes for an absent one.
\<close>

theorem ensure_expiry_zero_counterexample:
  "in_date_range 0
   \<and> getToken_result (env_of (Inr (Some \<lparr>token = ''tok'', expiresOnTimestamp = Some 0\<rparr>)) None)
     = Inr (Some \<lparr>token = ''tok'', expiresOnTimestamp = Some 0\<rparr>)
   \<and> raised (ensureSqlConnection config0
        (env_of (Inr (Some \<lparr>token = ''tok'', expiresOnTimestamp = Some 0\<rparr>)) None) initial) = None
   \<and> globalTokenExpiresOn (final (ensureSqlConnection config0
        (env_of (Inr (Some \<lparr>token = ''tok'', expiresOnTimestamp = Some 0\<rparr>)) None) initial))
      = Some 1801500
   \<and> globalTokenExpiresOn (final (ensureSqlConnection config0
        (env_of (Inr (Some \<lparr>token = ''tok'', expiresOnTimestamp = Some 0\<rparr>)) None) initial))
      \<noteq> Some 0"
  by (simp add: ensureSqlConnection_def session_valid_def connected_pool_def initial_def
        env_of_def createSqlConfig_def config0_def open_pool_def connect_def in_date_range_def)

section \<open>Properties of the tool handler and of registration\<close>

text \<open>
  Claim C8. The handler always returns a response and never lets an error through.
  When \<open>ensureSqlConnection\<close> throws, or it returns and the tool's \<open>run\<close> throws, the
  response is the single text item holding the stringified object with
  \<open>success = false\<close>, the message \<open>Error occurred: \<close> followed by the error's string
  form, and the error's message (or \<open>Unknown error\<close> for a thrown value that is not an
  \<open>Error\<close>), and \<open>isError\<close> is true.
\<close>

theorem handler_surfaces_errors:
  "(\<exists>resp. fst (handler stringify run config env args w) = Inr resp)
   \<and> (\<forall>e. raised (ensureSqlConnection config env w) = Some e
          \<or> raised (ensureSqlConnection config env w) = None
            \<and> run args (final (ensureSqlConnection config env w)) = Inl e
        \<longrightarrow> fst (handler stringify run config env args w)
            = Inr \<lparr>content = [\<lparr>content_type = ''text'', content_text = stringify
                     (JObject [(''success'', JBool False),
                               (''message'', JString (''Error occurred: '' @ to_string e)),
                               (''error'', JString (case e of ErrorObj n m \<Rightarrow> m
                                                    | NonError s \<Rightarrow> ''Unknown error''))])\<rparr>],
                   isError = Some True\<rparr>)"
  by (auto simp: handler_def try_catch_def Let_def split: option.splits sum.splits)

theorem handler_surfaces_errors_witness:
  "raised (ensureSqlConnection config0 (env_of (Inl (ErrorObj ''AuthenticationError'' ''denied'')) None)
      initial) = Some (ErrorObj ''AuthenticationError'' ''denied'')
   \<and> fst (handler (\<lambda>j. ''{}'') (\<lambda>a w. Inr JNull) config0
        (env_of (Inl (ErrorObj ''AuthenticationError'' ''denied'')) None) () initial)
      = Inr \<lparr>content = [\<lparr>content_type = ''text'', content_text = ''{}''\<rparr>], isError = Some True\<rparr>"
  using handler_surfaces_errors [of "\<lambda>j. ''{}''" "\<lambda>a w. Inr JNull" config0
      "env_of (Inl (ErrorObj ''AuthenticationError'' ''denied'')) None" "()" initial]
  by (simp add: ensureSqlConnection_def session_valid_def connected_pool_def initial_def
        env_of_def createSqlConfig_def config0_def)

text \<open>
  Claim C5. With the read-only flag set, the tools chosen are the list, read and
  describe tools, in this order, and the names registered with the server are exactly
  the names of these three; a write-oriented tool whose name is none of these three
  is not among the registered names and no invocation by its name finds a tool.
\<close>

theorem readonly_tools:
  assumes "readOnly config"
  shows "map name (tools config ts)
           = [name (listTableTool ts), name (readDataTool ts), name (describeTableTool ts)]
       \<and> map fst (registered config ts)
           = [name (listTableTool ts), name (readDataTool ts), name (describeTableTool ts)]
       \<and> set (map fst (registered config ts))
           = {name (listTableTool ts), name (readDataTool ts), name (describeTableTool ts)}
       \<and> (\<forall>t \<in> set (write_tools ts).
            name t \<notin> {name (listTableTool ts), name (readDataTool ts), name (describeTableTool ts)}
            \<longrightarrow> name t \<notin> set (map fst (registered config ts)) \<and> dispatch config ts (name t) = None)"
  using assms by (auto simp: tools_def registered_def dispatch_def)

theorem readonly_tools_witness:
  "readOnly config0
   \<and> set (map name (tools config0 readme_tools)) = {''list_tables'', ''read_data'', ''describe_table''}
   \<and> map fst (registered config0 readme_tools) = [''list_tables'', ''read_data'', ''describe_table'']
   \<and> dispatch config0 readme_tools ''drop_table'' = None
   \<and> dispatch config0 readme_tools ''insert_data'' = None"
  using readonly_tools [of config0 readme_tools]
  by (simp add: config0_def readme_tools_def plain_tool_def write_tools_def)




section \<open>Properties of the query safety validator\<close>

subsection \<open>Tokens are the whole words of the text\<close>

lemma takeWhile_run:
  assumes "\<forall>c \<in> set w. P c" and "post = [] \<or> \<not> P (hd post)"
  shows "takeWhile P (w @ post) = w"
  using assms by (cases post) (auto simp: takeWhile_append2)

lemma run_atI:
  "s = pre @ w @ post \<Longrightarrow> pre = [] \<or> \<not> is_word_char (last pre)
     \<Longrightarrow> post = [] \<or> \<not> is_word_char (hd post) \<Longrightarrow> run_at w s"
  unfolding run_at_def by blast

lemma words_sound:
  "w \<in> set (words s) \<Longrightarrow> w \<noteq> [] \<and> (\<forall>c \<in> set w. is_word_char c) \<and> run_at w s"
proof (induction s rule: words.induct)
  case 1
  then show ?case by simp
next
  case (2 c cs)
  show ?case
  proof (cases "is_word_char c")
    case True
    let ?t = "takeWhile is_word_char (c # cs)"
    let ?d = "dropWhile is_word_char cs"
    from "2.prems" True have "w = ?t \<or> w \<in> set (words ?d)" by simp
    then show ?thesis
    proof
      assume a: "w = ?t"
      have e: "c # cs = [] @ ?t @ dropWhile is_word_char (c # cs)" by simp
      have "dropWhile is_word_char (c # cs) = []
          \<or> \<not> is_word_char (hd (dropWhile is_word_char (c # cs)))"
        using hd_dropWhile [of is_word_char "c # cs"] by blast
      then have "run_at ?t (c # cs)" by (rule run_atI [OF e disjI1 [OF refl]])
      moreover have "?t \<noteq> []" using True by simp
      moreover have "\<forall>x \<in> set ?t. is_word_char x" using set_takeWhileD by fast
      ultimately show ?thesis unfolding a by blast
    next
      assume b: "w \<in> set (words ?d)"
      from "2.IH"(1) [OF True b]
      have ih: "w \<noteq> []" "\<forall>c \<in> set w. is_word_char c" "run_at w ?d"
        by blast+
      from ih(3) obtain pre post where pp: "?d = pre @ w @ post"
        "pre = [] \<or> \<not> is_word_char (last pre)" "post = [] \<or> \<not> is_word_char (hd post)"
        unfolding run_at_def by blast
      have "pre \<noteq> []"
      proof
        assume "pre = []"
        then have e: "?d = w @ post" using pp(1) by simp
        obtain x xs where w: "w = x # xs" using ih(1) by (cases w) auto
        have "?d \<noteq> []" using e w by simp
        then have "\<not> is_word_char (hd ?d)" by (rule hd_dropWhile)
        then have "\<not> is_word_char x" using e w by simp
        then show False using ih(2) w by simp
      qed
      have "c # cs = takeWhile is_word_char (c # cs) @ dropWhile is_word_char (c # cs)"
        by (simp only: takeWhile_dropWhile_id)
      moreover have "dropWhile is_word_char (c # cs) = pre @ w @ post"
        using True pp(1) by simp
      ultimately have e: "c # cs = (takeWhile is_word_char (c # cs) @ pre) @ w @ post"
        by (simp only: append_assoc)
      have l: "(takeWhile is_word_char (c # cs) @ pre) = []
          \<or> \<not> is_word_char (last (takeWhile is_word_char (c # cs) @ pre))"
        using \<open>pre \<noteq> []\<close> pp(2) by simp
      have "run_at w (c # cs)" by (rule run_atI [OF e l pp(3)])
      then show ?thesis using ih(1,2) by blast
    qed
  next
    case False
    from "2.prems" False have b: "w \<in> set (words cs)" by simp
    from "2.IH"(2) [OF False b]
    have ih: "w \<noteq> []" "\<forall>c \<in> set w. is_word_char c" "run_at w cs" by blast+
    from ih(3) obtain pre post where pp: "cs = pre @ w @ post"
      "pre = [] \<or> \<not> is_word_char (last pre)" "post = [] \<or> \<not> is_word_char (hd post)"
      unfolding run_at_def by blast
    have e: "c # cs = (c # pre) @ w @ post" unfolding pp(1) by simp
    have l: "c # pre = [] \<or> \<not> is_word_char (last (c # pre))" using pp(2) False by auto
    have "run_at w (c # cs)" by (rule run_atI [OF e l pp(3)])
    then show ?thesis using ih(1,2) by blast
  qed
qed

lemma words_complete:
  assumes "w \<noteq> []" and "\<forall>c \<in> set w. is_word_char c"
    and "s = pre @ w @ post"
    and "pre = [] \<or> \<not> is_word_char (last pre)"
    and "post = [] \<or> \<not> is_word_char (hd post)"
  shows "w \<in> set (words s)"
  using assms(3,4)
proof (induction s arbitrary: pre rule: words.induct)
  case 1
  then show ?case using assms(1) by simp
next
  case (2 c cs)
  show ?case
  proof (cases "is_word_char c")
    case True
    show ?thesis
    proof (cases "pre = []")
      case pre: True
      then have "takeWhile is_word_char (c # cs) = w"
        using takeWhile_run [OF assms(2,5)] "2.prems"(1) by simp
      then show ?thesis using True by simp
    next
      case pre: False
      with "2.prems"(2) have nl: "\<not> is_word_char (last pre)" by simp
      then have ex: "\<exists>x \<in> set pre. \<not> is_word_char x" using pre last_in_set by blast
      then have dne: "dropWhile is_word_char pre \<noteq> []" by (simp add: dropWhile_eq_Nil_conv)
      from ex have "dropWhile is_word_char (c # cs) = dropWhile is_word_char pre @ w @ post"
        using "2.prems"(1) by (auto simp: dropWhile_append1)
      then have d: "dropWhile is_word_char cs = dropWhile is_word_char pre @ w @ post"
        using True by simp
      have "last (dropWhile is_word_char pre) = last pre"
        using dne by (metis last_appendR takeWhile_dropWhile_id)
      with nl have "dropWhile is_word_char pre = [] \<or> \<not> is_word_char (last (dropWhile is_word_char pre))"
        by simp
      from "2.IH"(1) [OF True d this] show ?thesis using True by simp
    qed
  next
    case False
    have "pre \<noteq> []"
    proof
      assume "pre = []"
      with "2.prems"(1) assms(1) have "c = hd w" by (cases w) auto
      with assms(1,2) False show False by (cases w) auto
    qed
    then obtain pre' where p: "pre = c # pre'" using "2.prems"(1) by (cases pre) auto
    then have "cs = pre' @ w @ post" using "2.prems"(1) by simp
    moreover have "pre' = [] \<or> \<not> is_word_char (last pre')"
      using "2.prems"(2) p by (cases "pre' = []") auto
    ultimately have "w \<in> set (words cs)" using "2.IH"(2) [OF False] by blast
    then show ?thesis using False by simp
  qed
qed

lemma words_iff:
  "w \<in> set (words s) \<longleftrightarrow> w \<noteq> [] \<and> (\<forall>c \<in> set w. is_word_char c) \<and> run_at w s"
  using words_sound [of w s] words_complete [of w s] unfolding run_at_def by blast

lemma upper_word: "upper c \<in> set upper_letters \<Longrightarrow> is_word_char c"
proof (cases "map_of (zip lower_letters upper_letters) c")
  case None
  assume "upper c \<in> set upper_letters"
  with None show ?thesis by (simp add: upper_def is_word_char_def)
next
  case (Some u)
  then have "c \<in> set lower_letters" by (meson map_of_SomeD set_zip_leftD)
  then show ?thesis by (simp add: is_word_char_def)
qed

lemma denylist_chars: "k \<in> set denylist \<Longrightarrow> k \<noteq> [] \<and> set k \<subseteq> set upper_letters"
  by (auto simp: denylist_def upper_letters_def)

lemma word_not_space: "is_word_char c \<Longrightarrow> \<not> is_space c"
  by (auto simp: is_word_char_def is_space_def lower_letters_def upper_letters_def)

lemma denylisted_iff: "denylisted s \<longleftrightarrow> (\<exists>k \<in> set denylist. whole_word k s)"
proof
  assume "denylisted s"
  then obtain w where w: "w \<in> set (words s)" "map upper w \<in> set denylist"
    by (auto simp: denylisted_def list_ex_iff)
  from words_sound [OF w(1)] have "run_at w s" by blast
  then have "whole_word (map upper w) s"
    unfolding run_at_def whole_word_def by blast
  with w(2) show "\<exists>k \<in> set denylist. whole_word k s" by blast
next
  assume "\<exists>k \<in> set denylist. whole_word k s"
  then obtain k pre mid post where k: "k \<in> set denylist"
    and s: "s = pre @ mid @ post" and m: "map upper mid = k"
    and b: "pre = [] \<or> \<not> is_word_char (last pre)" "post = [] \<or> \<not> is_word_char (hd post)"
    unfolding whole_word_def by blast
  from denylist_chars [OF k] have kc: "k \<noteq> []" "set k \<subseteq> set upper_letters" by blast+
  from kc(1) m have "mid \<noteq> []" by auto
  moreover have "\<forall>c \<in> set mid. is_word_char c"
  proof
    fix c assume "c \<in> set mid"
    then have "upper c \<in> set k" using m by auto
    with kc(2) show "is_word_char c" by (blast intro: upper_word)
  qed
  ultimately have "mid \<in> set (words s)" using s b by (rule words_complete)
  with k m show "denylisted s" by (auto simp: denylisted_def list_ex_iff)
qed

lemma denylisted_not_blank: "denylisted s \<Longrightarrow> \<not> blank s"
proof -
  assume "denylisted s"
  then obtain w where w: "w \<in> set (words s)" by (auto simp: denylisted_def list_ex_iff)
  from words_sound [OF w] obtain c where "c \<in> set w" "is_word_char c" "run_at w s"
    by (cases w) auto
  then have "c \<in> set s" "\<not> is_space c" unfolding run_at_def by (auto dest: word_not_space)
  then show ?thesis by (auto simp: blank_def list_all_iff)
qed

subsection \<open>Statement separators\<close>

lemma multi_statement_iff:
  "multi_statement s \<longleftrightarrow> (\<exists>pre post. s = pre @ CHR '';'' # post \<and> \<not> blank post)"
proof
  show "multi_statement s \<Longrightarrow> \<exists>pre post. s = pre @ CHR '';'' # post \<and> \<not> blank post"
  proof (induction s)
    case Nil
    then show ?case by simp
  next
    case (Cons c cs)
    show ?case
    proof (cases "c = CHR '';'' \<and> \<not> blank cs")
      case True
      then have "c # cs = [] @ CHR '';'' # cs \<and> \<not> blank cs" by simp
      then show ?thesis by blast
    next
      case False
      with Cons.prems have "multi_statement cs" by auto
      with Cons.IH obtain pre post where "cs = pre @ CHR '';'' # post" "\<not> blank post" by blast
      then have "c # cs = (c # pre) @ CHR '';'' # post \<and> \<not> blank post" by simp
      then show ?thesis by blast
    qed
  qed
next
  assume "\<exists>pre post. s = pre @ CHR '';'' # post \<and> \<not> blank post"
  then obtain pre post where s: "s = pre @ CHR '';'' # post" and nb: "\<not> blank post" by blast
  have "multi_statement (pre @ CHR '';'' # post)" using nb by (induction pre) auto
  with s show "multi_statement s" by simp
qed

lemma blank_single: "blank post \<Longrightarrow> \<not> multi_statement post"
  by (induction post) (auto simp: blank_def is_space_def)

lemma trailing_separator:
  "CHR '';'' \<notin> set pre \<Longrightarrow> blank post \<Longrightarrow> \<not> multi_statement (pre @ CHR '';'' # post)"
  by (induction pre) (auto simp: blank_single)

text \<open>
  Claim C7. A fragment with a \<open>;\<close> followed by content that is not all whitespace is
  rejected, as a multi-statement batch; a fragment whose only \<open>;\<close> is followed by
  nothing but whitespace (or by nothing) is not rejected on that ground.
\<close>

theorem validate_multi_statement:
  "((\<exists>c \<in> set post. \<not> is_space c)
      \<longrightarrow> validate (pre @ CHR '';'' # post) m = Reject MultiStatement)
   \<and> (CHR '';'' \<notin> set pre \<and> (\<forall>c \<in> set post. is_space c)
      \<longrightarrow> validate (pre @ CHR '';'' # post) m \<noteq> Reject MultiStatement)"
proof (intro conjI impI)
  assume a: "\<exists>c \<in> set post. \<not> is_space c"
  then have nb: "\<not> blank post" by (auto simp: blank_def list_all_iff)
  then have "multi_statement (pre @ CHR '';'' # post)"
    unfolding multi_statement_iff by blast
  moreover have "\<not> blank (pre @ CHR '';'' # post)" using nb by (auto simp: blank_def)
  ultimately show "validate (pre @ CHR '';'' # post) m = Reject MultiStatement"
    by (simp add: validate_def)
next
  assume "CHR '';'' \<notin> set pre \<and> (\<forall>c \<in> set post. is_space c)"
  then have "\<not> multi_statement (pre @ CHR '';'' # post)"
    by (intro trailing_separator) (auto simp: blank_def list_all_iff)
  then show "validate (pre @ CHR '';'' # post) m \<noteq> Reject MultiStatement"
    by (simp add: validate_def)
qed

theorem validate_multi_statement_witness:
  "validate ''SELECT 1; DROP TABLE Users'' ReadOnly = Reject MultiStatement
   \<and> validate ''SELECT 1; '' ReadOnly \<noteq> Reject MultiStatement"
  using validate_multi_statement [of "'' DROP TABLE Users''" "''SELECT 1''" ReadOnly]
    validate_multi_statement [of "'' ''" "''SELECT 1''" ReadOnly]
  by (simp add: is_space_def)

subsection \<open>Denylisted keywords\<close>

text \<open>
  Claim C6, amended. The validator rejects a fragment on the denylist ground exactly
  when the fragment is not a multi-statement batch and contains, in any letter case
  and as a whole word, one of the denylisted keywords; and every fragment that
  contains one as a whole word is rejected on some ground. A fragment such as
  \<open>SELECT * FROM Updates\<close>, where a keyword is only part of a longer word, is
  accepted.
\<close>

theorem validate_denylist:
  "(validate s m = Reject DenylistedKeyword
      \<longleftrightarrow> \<not> multi_statement s \<and> (\<exists>k \<in> set denylist. whole_word k s))
   \<and> ((\<exists>k \<in> set denylist. whole_word k s) \<longrightarrow> validate s m \<noteq> Accept)"
  using denylisted_not_blank [of s]
  by (auto simp: validate_def simp flip: denylisted_iff)

theorem validate_denylist_witness:
  "validate ''UPDATE Users SET x=1'' ReadOnly = Reject DenylistedKeyword
   \<and> (\<exists>k \<in> set denylist. whole_word k ''UPDATE Users SET x=1'')
   \<and> validate ''SELECT * FROM Updates'' ReadOnly = Accept
   \<and> \<not> (\<exists>k \<in> set denylist. whole_word k ''SELECT * FROM Updates'')"
proof -
  have a: "validate ''UPDATE Users SET x=1'' ReadOnly = Reject DenylistedKeyword"
    by code_simp
  have b: "validate ''SELECT * FROM Updates'' ReadOnly = Accept"
    by code_simp
  show ?thesis
    using validate_denylist [of "''UPDATE Users SET x=1''" ReadOnly]
      validate_denylist [of "''SELECT * FROM Updates''" ReadOnly] a b
    by simp
qed

text \<open>
  The claim as stated ("rejects exactly when") fails: the empty fragment and a
  two-statement batch of reads contain no denylisted keyword and are rejected, on the
  grounds of policy steps 1 and 2.
\<close>

theorem validate_reject_counterexample:
  "validate [] ReadOnly = Reject Empty \<and> \<not> (\<exists>k \<in> set denylist. whole_word k [])
   \<and> validate ''SELECT 1; SELECT 2'' ReadOnly = Reject MultiStatement
   \<and> \<not> (\<exists>k \<in> set denylist. whole_word k ''SELECT 1; SELECT 2'')"
proof -
  have "\<not> denylisted []" "\<not> denylisted ''SELECT 1; SELECT 2''" by code_simp+
  moreover have "validate [] ReadOnly = Reject Empty"
    "validate ''SELECT 1; SELECT 2'' ReadOnly = Reject MultiStatement" by code_simp+
  ultimately show ?thesis unfolding denylisted_iff by blast
qed

end
